theory Spec2Isabelle
  imports Main
begin

section \<open>Python values used by BabyMonkeyAGI.py\<close>

text \<open>
  A Python \<open>str\<close> is a sequence of Unicode code points; it is modelled as the list of
  those code points, so that \<open>str.strip\<close> and the ASCII filter of the objective see the
  characters Python sees.  \<open>str\<close> turns a literal of the theory into such a list.
\<close>

type_synonym pystr = "nat list"

definition str :: "string \<Rightarrow> pystr" where
  "str s = map of_char s"

text \<open>
  The exceptions the modelled code can raise: \<open>deque.popleft\<close> on an empty deque raises
  \<open>IndexError\<close>, an attribute access on \<open>None\<close> raises \<open>AttributeError\<close>.
\<close>

datatype error = IndexError | AttributeError

text \<open>
  A task is a dict with the keys \<open>task_id\<close> and \<open>task_name\<close>.  The id is an \<open>int\<close> when
  it comes from \<open>next_task_id\<close> (lines 356 and 414) and a \<open>str\<close> when it comes from the
  parser of \<open>prioritization_agent\<close> (line 312).
\<close>

datatype pyval = PInt int | PStr pystr

record Task =
  task_id :: pyval
  task_name :: pystr

section \<open>SingleTaskListStorage (lines 130-152)\<close>

record SingleTaskListStorage =
  tasks :: "Task list"
  task_id_counter :: int

definition storage_init :: SingleTaskListStorage where
  "storage_init = \<lparr>tasks = [], task_id_counter = 0\<rparr>"

definition append :: "SingleTaskListStorage \<Rightarrow> Task \<Rightarrow> SingleTaskListStorage" where
  "append s task = s\<lparr>tasks := tasks s @ [task]\<rparr>"

definition replace :: "SingleTaskListStorage \<Rightarrow> Task list \<Rightarrow> SingleTaskListStorage" where
  "replace s ts = s\<lparr>tasks := ts\<rparr>"

definition popleft :: "SingleTaskListStorage \<Rightarrow> error + Task \<times> SingleTaskListStorage" where
  "popleft s = (case tasks s of
                  [] \<Rightarrow> Inl IndexError
                | t # ts \<Rightarrow> Inr (t, s\<lparr>tasks := ts\<rparr>))"

definition is_empty :: "SingleTaskListStorage \<Rightarrow> bool" where
  "is_empty s = (if tasks s \<noteq> [] then False else True)"

definition next_task_id :: "SingleTaskListStorage \<Rightarrow> int \<times> SingleTaskListStorage" where
  "next_task_id s =
     (task_id_counter s + 1, s\<lparr>task_id_counter := task_id_counter s + 1\<rparr>)"

definition get_task_names :: "SingleTaskListStorage \<Rightarrow> pystr list" where
  "get_task_names s = map task_name (tasks s)"

subsection \<open>Sequences of calls on one store\<close>

text \<open>
  A client's calls of \<open>append\<close> and \<open>popleft\<close>, run in order on a store.  The tasks
  returned by the \<open>popleft\<close> calls are collected in call order; the first \<open>popleft\<close> that
  raises ends the run with its exception.
\<close>

datatype queue_call = Append Task | Popleft

fun run_calls ::
  "queue_call list \<Rightarrow> SingleTaskListStorage \<Rightarrow> error + Task list \<times> SingleTaskListStorage"
where
  "run_calls [] s = Inr ([], s)"
| "run_calls (Append t # cs) s = run_calls cs (append s t)"
| "run_calls (Popleft # cs) s =
     (case popleft s of
        Inl e \<Rightarrow> Inl e
      | Inr (t, s') \<Rightarrow>
          (case run_calls cs s' of
             Inl e \<Rightarrow> Inl e
           | Inr (outs, s'') \<Rightarrow> Inr (t # outs, s'')))"

fun appended :: "queue_call list \<Rightarrow> Task list" where
  "appended [] = []"
| "appended (Append t # cs) = t # appended cs"
| "appended (Popleft # cs) = appended cs"

section \<open>prioritization_agent (lines 296-315)\<close>

text \<open>
  The characters \<open>str.strip()\<close> removes: the code points for which \<open>str.isspace\<close> holds.
\<close>

definition is_space :: "nat \<Rightarrow> bool" where
  "is_space c \<longleftrightarrow>
     (9 \<le> c \<and> c \<le> 13) \<or> (28 \<le> c \<and> c \<le> 32) \<or> c = 133 \<or> c = 160 \<or> c = 5760 \<or>
     (8192 \<le> c \<and> c \<le> 8202) \<or> c = 8232 \<or> c = 8233 \<or> c = 8239 \<or> c = 8287 \<or> c = 12288"

text \<open>\<open>s.strip()\<close>: leading and trailing whitespace removed.\<close>

definition strip :: "pystr \<Rightarrow> pystr" where
  "strip s = rev (dropWhile is_space (rev (dropWhile is_space s)))"

text \<open>
  \<open>s.split(sep)\<close> for a separator of one character: the pieces between the separators,
  empty pieces kept; a string without the separator gives the one piece \<open>[s]\<close>.
\<close>

fun split_on :: "nat \<Rightarrow> pystr \<Rightarrow> pystr list" where
  "split_on sep [] = [[]]"
| "split_on sep (c # cs) =
     (if c = sep then [] # split_on sep cs
      else (case split_on sep cs of
              [] \<Rightarrow> [[c]]
            | p # ps \<Rightarrow> (c # p) # ps))"

text \<open>
  \<open>s.split(sep, 1)\<close>: at most one split, at the first separator; the result has two
  parts exactly when the separator occurs in \<open>s\<close>.
\<close>

definition split_first :: "nat \<Rightarrow> pystr \<Rightarrow> pystr list" where
  "split_first sep s =
     (if sep \<in> set s
      then [takeWhile (\<lambda>c. c \<noteq> sep) s, tl (dropWhile (\<lambda>c. c \<noteq> sep) s)]
      else [s])"

text \<open>
  The loop of lines 309-314 over the lines of the response, with the list it builds.
  Code point 46 is the full stop, 10 the newline.
\<close>

fun parse_loop :: "pystr list \<Rightarrow> Task list \<Rightarrow> Task list" where
  "parse_loop [] new_tasks_list = new_tasks_list"
| "parse_loop (task_string # rest) new_tasks_list =
     (let task_parts = split_first 46 (strip task_string) in
      if length task_parts = 2
      then parse_loop rest
             (new_tasks_list @
                [\<lparr>task_id = PStr (strip (task_parts ! 0)),
                  task_name = strip (task_parts ! 1)\<rparr>])
      else parse_loop rest new_tasks_list)"

text \<open>
  \<open>openai_call\<close> is an external text completion service: its answer to the prompt is
  the argument \<open>response\<close>, any text.  The prompt (built from the task names, the
  objective and the id drawn on line 298) only reaches the service and is not modelled;
  drawing the id advances the counter of the store.
\<close>

definition prioritization_agent ::
  "pystr \<Rightarrow> SingleTaskListStorage \<Rightarrow> SingleTaskListStorage" where
  "prioritization_agent response s =
     (let task_names = get_task_names s;
          (next_id, s1) = next_task_id s;
          new_tasks = (if 10 \<in> set response then split_on 10 response else [response]);
          new_tasks_list = parse_loop new_tasks []
      in replace s1 new_tasks_list)"


subsection \<open>The parser as the specification words it\<close>

text \<open>
  The response is split into lines; a line is kept when it splits into two parts at
  its first full stop; the part before is the id and the part after is the name, both
  stripped.
\<close>

definition spec_lines :: "pystr \<Rightarrow> pystr list" where
  "spec_lines response = split_on 10 response"

definition spec_two_parts :: "pystr \<Rightarrow> bool" where
  "spec_two_parts line \<longleftrightarrow> 46 \<in> set line"

definition spec_task :: "pystr \<Rightarrow> Task" where
  "spec_task line =
     \<lparr>task_id = PStr (strip (takeWhile (\<lambda>c. c \<noteq> 46) line)),
      task_name = strip (tl (dropWhile (\<lambda>c. c \<noteq> 46) line))\<rparr>"

definition spec_prioritized :: "pystr \<Rightarrow> Task list" where
  "spec_prioritized response = map spec_task (filter spec_two_parts (spec_lines response))"

subsection \<open>Tasks whose ids are drawn from the store\<close>

text \<open>
  The calls by which the program itself creates and consumes tasks: a bare
  \<open>next_task_id()\<close> (line 298), the creation of a task with a freshly drawn id followed
  by its \<open>append\<close> (lines 355-359 and 414-416), and \<open>popleft\<close> (line 392).
\<close>

datatype id_call = Draw | AddNew pystr | Remove

fun run_id_calls ::
  "id_call list \<Rightarrow> SingleTaskListStorage \<Rightarrow> error + Task list \<times> SingleTaskListStorage"
where
  "run_id_calls [] s = Inr ([], s)"
| "run_id_calls (Draw # cs) s = run_id_calls cs (snd (next_task_id s))"
| "run_id_calls (AddNew name # cs) s =
     (let (new_id, s1) = next_task_id s
      in run_id_calls cs (append s1 \<lparr>task_id = PInt new_id, task_name = name\<rparr>))"
| "run_id_calls (Remove # cs) s =
     (case popleft s of
        Inl e \<Rightarrow> Inl e
      | Inr (t, s') \<Rightarrow>
          (case run_id_calls cs s' of
             Inl e \<Rightarrow> Inl e
           | Inr (outs, s'') \<Rightarrow> Inr (t # outs, s'')))"

section \<open>Thought and ThoughtTree (lines 246-268)\<close>

text \<open>
  Thoughts are objects that the tree, the parents' child lists and the driver loop
  refer to, and \<open>add_child\<close> mutates them in place.  The objects live in a heap, a list
  indexed by address; a reference is an address, and \<open>None\<close> is Python's \<open>None\<close>.  A
  new object gets the next free address, the length of the heap.  Python has no
  dangling reference, so an address handed to an operation is below the length of the
  heap; where an operation of the model reads an address that is not, it is said below.
\<close>

record Thought =
  task_name :: pystr
  parent :: "nat option"
  children :: "nat list"

type_synonym heap = "Thought list"

record ThoughtTree =
  root :: "nat option"

definition ThoughtTree_init :: ThoughtTree where
  "ThoughtTree_init = \<lparr>root = None\<rparr>"

definition Thought_init :: "pystr \<Rightarrow> nat option \<Rightarrow> heap \<Rightarrow> nat \<times> heap" where
  "Thought_init name par h =
     (length h, h @ [\<lparr>task_name = name, parent = par, children = []\<rparr>])"

text \<open>\<open>self.children.append(child)\<close>; on an address outside the heap the update changes nothing.\<close>

definition add_child :: "nat \<Rightarrow> nat \<Rightarrow> heap \<Rightarrow> heap" where
  "add_child self child h =
     h[self := (h ! self)\<lparr>children := children (h ! self) @ [child]\<rparr>]"

text \<open>
  \<open>if parent:\<close> tests a \<open>Thought\<close> or \<open>None\<close>; the class defines neither \<open>__bool__\<close> nor
  \<open>__len__\<close>, so every \<open>Thought\<close> is true and the test is \<open>parent is not None\<close>.
\<close>

definition add_thought ::
  "ThoughtTree \<Rightarrow> pystr \<Rightarrow> nat option \<Rightarrow> heap \<Rightarrow> nat \<times> heap \<times> ThoughtTree" where
  "add_thought tree name par h =
     (let (new_thought, h1) = Thought_init name par h in
      case par of
        Some p \<Rightarrow> (new_thought, add_child p new_thought h1, tree)
      | None \<Rightarrow> (new_thought, h1, tree\<lparr>root := Some new_thought\<rparr>))"

section \<open>generate_tasks_based_on_thought and task_creation_agent (lines 270-293)\<close>

definition task_map :: "(pystr \<times> pystr list) list" where
  "task_map =
     [(str ''INITIAL_TASK'',
         [str ''Define problem'', str ''Gather resources'', str ''Develop plan'']),
      (str ''Define problem'',
         [str ''Identify key components'', str ''Determine constraints'', str ''Set goals'']),
      (str ''Gather resources'',
         [str ''Search for information'', str ''Organize resources'', str ''Evaluate resources'']),
      (str ''Develop plan'',
         [str ''Outline steps'', str ''Assign responsibilities'', str ''Set timeline''])]"

definition generate_tasks_based_on_thought :: "Thought \<Rightarrow> pystr list" where
  "generate_tasks_based_on_thought thought =
     (case map_of task_map (Thought.task_name thought) of
        None \<Rightarrow> []
      | Some names \<Rightarrow> names)"

text \<open>The loop of lines 291-292: one \<open>add_thought\<close> per name, all under the same parent.\<close>

fun add_thoughts ::
  "pystr list \<Rightarrow> nat option \<Rightarrow> heap \<times> ThoughtTree \<Rightarrow> heap \<times> ThoughtTree" where
  "add_thoughts [] par (h, tree) = (h, tree)"
| "add_thoughts (name # names) par (h, tree) =
     (let (new_thought, h1, tree1) = add_thought tree name par h
      in add_thoughts names par (h1, tree1))"

text \<open>
  \<open>current_thought\<close> is \<open>thought_tree.root\<close> (line 287); the parameters \<open>objective\<close>,
  \<open>result\<close> and \<open>task_description\<close> are not used.  With no root, reading
  \<open>thought.task_name\<close> on line 283 raises.  The lookup of line 283 has the default \<open>[]\<close>,
  so the test of line 289 never holds and is left out.
\<close>

definition task_creation_agent ::
  "pystr \<Rightarrow> pystr \<Rightarrow> pystr \<Rightarrow> ThoughtTree \<Rightarrow> heap
     \<Rightarrow> error + pystr list \<times> heap \<times> ThoughtTree" where
  "task_creation_agent objective result task_description thought_tree h =
     (let current_thought = root thought_tree in
      case current_thought of
        None \<Rightarrow> Inl AttributeError
      | Some r \<Rightarrow>
          (let new_tasks = generate_tasks_based_on_thought (h ! r);
               (h1, tree1) = add_thoughts new_tasks current_thought (h, thought_tree)
           in Inr (new_tasks, h1, tree1)))"

section \<open>get_next_thought and is_thought_tree_empty (lines 362-379)\<close>

text \<open>
  The stack is a Python list: \<open>pop\<close> takes its last element and \<open>extend\<close> appends the
  children in order.  It starts as \<open>[thought_tree.root]\<close>, which is \<open>[None]\<close> for a tree
  without root, a list that is not empty; \<open>thought.children\<close> then raises.  The loop has
  no bound, so the function is a partial one: the value \<open>None\<close> is a run that never
  returns, and it is also the value on an address outside the heap.
\<close>

partial_function (option) get_next_thought_loop ::
  "heap \<Rightarrow> nat option list \<Rightarrow> (error + nat option) option" where
  "get_next_thought_loop h stack =
     (if stack = [] then Some (Inr None)
      else (case last stack of
              None \<Rightarrow> Some (Inl AttributeError)
            | Some thought \<Rightarrow>
                if thought < length h
                then (if children (h ! thought) = [] then Some (Inr (Some thought))
                      else get_next_thought_loop h
                             (butlast stack @ map Some (children (h ! thought))))
                else None))"

definition get_next_thought :: "heap \<Rightarrow> ThoughtTree \<Rightarrow> (error + nat option) option" where
  "get_next_thought h thought_tree = get_next_thought_loop h [root thought_tree]"

definition is_thought_tree_empty :: "ThoughtTree \<Rightarrow> bool" where
  "is_thought_tree_empty thought_tree \<longleftrightarrow> root thought_tree = None"

subsection \<open>Heaps that add_thought builds\<close>

text \<open>
  Every child was created after its parent, so its address is greater, and it is an
  object of the heap.
\<close>

definition heap_ok :: "heap \<Rightarrow> bool" where
  "heap_ok h \<longleftrightarrow>
     list_all (\<lambda>a. list_all (\<lambda>c. a < c \<and> c < length h) (children (h ! a))) [0..<length h]"

text \<open>
  The leaf reached from a thought by going to the most recently added child, the last
  one of \<open>children\<close>, until a thought has no child.
\<close>

inductive last_child_leaf :: "heap \<Rightarrow> nat \<Rightarrow> nat \<Rightarrow> bool" for h where
  leaf: "a < length h \<Longrightarrow> children (h ! a) = [] \<Longrightarrow> last_child_leaf h a a"
| step: "a < length h \<Longrightarrow> children (h ! a) \<noteq> [] \<Longrightarrow>
         last_child_leaf h (last (children (h ! a))) b \<Longrightarrow> last_child_leaf h a b"

code_pred last_child_leaf .

section \<open>The driver: configuration, start and main (lines 36-47, 156, 354-359, 382-419)\<close>

text \<open>
  The run configuration read from the environment.  \<open>OBJECTIVE_PINECONE_COMPAT\<close> is the
  objective without the characters outside \<open>\x00-\x7F\<close> (lines 44-45): the pattern
  matches every maximal run of such characters and the substitute is empty.  Lines 96-97
  stop the program at start when the objective or the initial task is empty.
\<close>

record config =
  OBJECTIVE :: pystr
  INITIAL_TASK :: pystr
  JOIN_EXISTING_OBJECTIVE :: bool

definition OBJECTIVE_PINECONE_COMPAT :: "config \<Rightarrow> pystr" where
  "OBJECTIVE_PINECONE_COMPAT cfg = filter (\<lambda>c. c \<le> 127) (OBJECTIVE cfg)"

text \<open>
  The text of a value inside an f-string: an \<open>int\<close> in decimal, a \<open>str\<close> as it is.
  Code point 48 is the digit zero, 45 the minus sign.
\<close>

fun digits :: "nat \<Rightarrow> pystr" where
  "digits n = (if n < 10 then [48 + n] else digits (n div 10) @ [48 + n mod 10])"

declare digits.simps [simp del]

definition str_int :: "int \<Rightarrow> pystr" where
  "str_int i = (if i < 0 then 45 # digits (nat (- i)) else digits (nat i))"

fun format_value :: "pyval \<Rightarrow> pystr" where
  "format_value (PInt i) = str_int i"
| "format_value (PStr s) = s"

text \<open>
  A call of \<open>index.upsert\<close>: the list of \<open>(id, vector, metadata)\<close> triples and the keyword
  arguments by name.  The vector is the answer of the embedding service and stays
  abstract.  The index reads its namespace from the keyword \<open>namespace\<close>, the one the
  query of line 347 passes.
\<close>

record 'v upsert_call =
  vectors :: "(pystr \<times> 'v \<times> (pystr \<times> pystr) list) list"
  kwargs :: "(string \<times> pystr) list"

definition namespace_of :: "'v upsert_call \<Rightarrow> pystr option" where
  "namespace_of call = map_of (kwargs call) ''namespace''"

text \<open>Lines 400-410: the record of an executed task and the call that stores it.\<close>

definition upsert_result :: "config \<Rightarrow> Task \<Rightarrow> pystr \<Rightarrow> 'v \<Rightarrow> 'v upsert_call" where
  "upsert_result cfg task result vector =
     (let result_id = str ''result_'' @ format_value (task_id task)
      in \<lparr>vectors = [(result_id, vector,
                       [(str ''task'', Task.task_name task), (str ''result'', result)])],
          kwargs = [(''nmespace'', OBJECTIVE_PINECONE_COMPAT cfg)]\<rparr>)"

text \<open>Lines 413-416: one new task per name, its id drawn from the store.\<close>

fun append_new_tasks :: "pystr list \<Rightarrow> SingleTaskListStorage \<Rightarrow> SingleTaskListStorage" where
  "append_new_tasks [] s = s"
| "append_new_tasks (name # names) s =
     (let (new_id, s1) = next_task_id s
      in append_new_tasks names (append s1 \<lparr>task_id = PInt new_id, task_name = name\<rparr>))"

text \<open>
  The state the driver works on: the heap of thoughts, the tree, the task store and the
  calls the index has received, oldest first.
\<close>

record 'v world =
  objects :: heap
  thought_tree :: ThoughtTree
  tasks_storage :: SingleTaskListStorage
  upserts :: "'v upsert_call list"

text \<open>
  What the external services answer in one iteration: the completion for the executed
  thought, the embedding of that result, and the completion for the prioritization
  prompt.  Each is any value.
\<close>

record 'v answers =
  result_text :: pystr
  embedding :: 'v
  response_text :: pystr

text \<open>Lines 156 and 354-359, then lines 383-384.\<close>

definition startup :: "config \<Rightarrow> 'v world" where
  "startup cfg =
     (let storage =
            (if \<not> JOIN_EXISTING_OBJECTIVE cfg
             then (let (new_id, s1) = next_task_id storage_init
                   in append s1 \<lparr>task_id = PInt new_id, task_name = INITIAL_TASK cfg\<rparr>)
             else storage_init);
          (new_thought, h, tree) = add_thought ThoughtTree_init (INITIAL_TASK cfg) None []
      in \<lparr>objects = h, thought_tree = tree, tasks_storage = storage, upserts = []\<rparr>)"

text \<open>
  Lines 411-416: \<open>task_creation_agent\<close> and the new tasks.  The selected thought is read
  only for its name, the argument \<open>task_description\<close>.
\<close>

definition create_tasks :: "config \<Rightarrow> pystr \<Rightarrow> nat \<Rightarrow> 'v world \<Rightarrow> error + 'v world" where
  "create_tasks cfg result current_thought w =
     (case task_creation_agent (OBJECTIVE cfg) result
             (Thought.task_name (objects w ! current_thought)) (thought_tree w) (objects w) of
        Inl e \<Rightarrow> Inl e
      | Inr (new_tasks, h1, tree1) \<Rightarrow>
          Inr (w\<lparr>objects := h1, thought_tree := tree1,
                  tasks_storage := append_new_tasks new_tasks (tasks_storage w)\<rparr>))"

text \<open>
  The body of the loop, lines 386-417.  \<open>explore_thought\<close> reads \<open>thought.task_name\<close>,
  which raises when \<open>get_next_thought\<close> returned \<open>None\<close>.  An exception ends the run.
  The calls of the completion, embedding and index services are taken to return; the
  printing and the pause of line 419 change no state and are left out.
\<close>

definition loop_body :: "config \<Rightarrow> 'v answers \<Rightarrow> 'v world \<Rightarrow> (error + 'v world) option" where
  "loop_body cfg ans w =
     (case get_next_thought (objects w) (thought_tree w) of
        None \<Rightarrow> None
      | Some (Inl e) \<Rightarrow> Some (Inl e)
      | Some (Inr current_thought) \<Rightarrow>
          (case popleft (tasks_storage w) of
             Inl e \<Rightarrow> Some (Inl e)
           | Inr (task, storage1) \<Rightarrow>
               (case current_thought of
                  None \<Rightarrow> Some (Inl AttributeError)
                | Some thought \<Rightarrow>
                    (let w1 = w\<lparr>tasks_storage := storage1,
                                 upserts := upserts w
                                   @ [upsert_result cfg task (result_text ans) (embedding ans)]\<rparr>
                     in case create_tasks cfg (result_text ans) thought w1 of
                          Inl e \<Rightarrow> Some (Inl e)
                        | Inr w2 \<Rightarrow>
                            Some (Inr (if \<not> JOIN_EXISTING_OBJECTIVE cfg
                                       then w2\<lparr>tasks_storage :=
                                                 prioritization_agent (response_text ans)
                                                   (tasks_storage w2)\<rparr>
                                       else w2))))))"

text \<open>
  The loop of line 385, run for as many iterations as there are answers; with the
  answers used up the state reached so far is returned.
\<close>

fun main_loop :: "config \<Rightarrow> 'v answers list \<Rightarrow> 'v world \<Rightarrow> (error + 'v world) option" where
  "main_loop cfg [] w = Some (Inr w)"
| "main_loop cfg (ans # rest) w =
     (if is_thought_tree_empty (thought_tree w) then Some (Inr w)
      else (case loop_body cfg ans w of
              None \<Rightarrow> None
            | Some (Inl e) \<Rightarrow> Some (Inl e)
            | Some (Inr w') \<Rightarrow> main_loop cfg rest w'))"

definition main :: "config \<Rightarrow> 'v answers list \<Rightarrow> (error + 'v world) option" where
  "main cfg answers = main_loop cfg answers (startup cfg)"

declare get_next_thought_loop.simps [code]

section \<open>Example states\<close>

text \<open>The tree with root A and the children B and C, built by three calls of \<open>add_thought\<close>.\<close>

definition tree_ABC :: "heap \<times> ThoughtTree" where
  "tree_ABC =
     (let (a, h1, t1) = add_thought ThoughtTree_init (str ''A'') None [];
          (b, h2, t2) = add_thought t1 (str ''B'') (Some a) h1;
          (c, h3, t3) = add_thought t2 (str ''C'') (Some a) h2
      in (h3, t3))"

text \<open>A driver state on that tree with two tasks waiting, and the answers of one iteration.\<close>

definition world_ABC :: "nat world" where
  "world_ABC =
     \<lparr>objects = fst tree_ABC, thought_tree = snd tree_ABC,
      tasks_storage = \<lparr>tasks = [\<lparr>task_id = PInt 1, task_name = str ''B''\<rparr>,
                                  \<lparr>task_id = PInt 2, task_name = str ''C''\<rparr>],
                         task_id_counter = 2\<rparr>,
      upserts = []\<rparr>"

definition config_ABC :: config where
  "config_ABC =
     \<lparr>OBJECTIVE = str ''Plan a trip'', INITIAL_TASK = str ''A'',
      JOIN_EXISTING_OBJECTIVE = False\<rparr>"

definition answers_ABC :: "nat answers" where
  "answers_ABC =
     \<lparr>result_text = str ''done'', embedding = 0, response_text = str ''3. C''\<rparr>"

text \<open>The run of the scenario: objective "Plan a trip", initial task "Define problem".\<close>

definition config_trip :: config where
  "config_trip =
     \<lparr>OBJECTIVE = str ''Plan a trip'', INITIAL_TASK = str ''Define problem'',
      JOIN_EXISTING_OBJECTIVE = False\<rparr>"

definition answers_trip :: "nat answers" where
  "answers_trip =
     \<lparr>result_text = str ''done'', embedding = 0,
      response_text = str ''2. Identify key components'' @ [10]
        @ str ''3. Determine constraints'' @ [10] @ str ''4. Set goals''\<rparr>"

text \<open>A run whose initial task is the first key of the task map.\<close>

definition config_initial :: config where
  "config_initial =
     \<lparr>OBJECTIVE = str ''Plan a trip'', INITIAL_TASK = str ''INITIAL_TASK'',
      JOIN_EXISTING_OBJECTIVE = False\<rparr>"

definition answers_initial :: "nat answers" where
  "answers_initial =
     \<lparr>result_text = str ''done'', embedding = 0,
      response_text = str ''2. Define problem'' @ [10]
        @ str ''3. Gather resources'' @ [10] @ str ''4. Develop plan''\<rparr>"


text \<open>The states of that run after the first and after the second iteration.\<close>

definition world_initial_1 :: "nat world" where
  "world_initial_1 =
     \<lparr>objects =
        [\<lparr>task_name = str ''INITIAL_TASK'', parent = None, children = [1, 2, 3]\<rparr>,
         \<lparr>task_name = str ''Define problem'', parent = Some 0, children = []\<rparr>,
         \<lparr>task_name = str ''Gather resources'', parent = Some 0, children = []\<rparr>,
         \<lparr>task_name = str ''Develop plan'', parent = Some 0, children = []\<rparr>],
      thought_tree = \<lparr>root = Some 0\<rparr>,
      tasks_storage =
        \<lparr>tasks = [\<lparr>task_id = PStr (str ''2''), task_name = str ''Define problem''\<rparr>,
                  \<lparr>task_id = PStr (str ''3''), task_name = str ''Gather resources''\<rparr>,
                  \<lparr>task_id = PStr (str ''4''), task_name = str ''Develop plan''\<rparr>],
         task_id_counter = 5\<rparr>,
      upserts =
        [\<lparr>vectors = [(str ''result_1'', 0,
                        [(str ''task'', str ''INITIAL_TASK''), (str ''result'', str ''done'')])],
          kwargs = [(''nmespace'', str ''Plan a trip'')]\<rparr>]\<rparr>"

definition world_initial_2 :: "nat world" where
  "world_initial_2 =
     \<lparr>objects =
        [\<lparr>task_name = str ''INITIAL_TASK'', parent = None, children = [1, 2, 3, 4, 5, 6]\<rparr>,
         \<lparr>task_name = str ''Define problem'', parent = Some 0, children = []\<rparr>,
         \<lparr>task_name = str ''Gather resources'', parent = Some 0, children = []\<rparr>,
         \<lparr>task_name = str ''Develop plan'', parent = Some 0, children = []\<rparr>,
         \<lparr>task_name = str ''Define problem'', parent = Some 0, children = []\<rparr>,
         \<lparr>task_name = str ''Gather resources'', parent = Some 0, children = []\<rparr>,
         \<lparr>task_name = str ''Develop plan'', parent = Some 0, children = []\<rparr>],
      thought_tree = \<lparr>root = Some 0\<rparr>,
      tasks_storage =
        \<lparr>tasks = [\<lparr>task_id = PStr (str ''2''), task_name = str ''Define problem''\<rparr>,
                  \<lparr>task_id = PStr (str ''3''), task_name = str ''Gather resources''\<rparr>,
                  \<lparr>task_id = PStr (str ''4''), task_name = str ''Develop plan''\<rparr>],
         task_id_counter = 9\<rparr>,
      upserts =
        [\<lparr>vectors = [(str ''result_1'', 0,
                        [(str ''task'', str ''INITIAL_TASK''), (str ''result'', str ''done'')])],
          kwargs = [(''nmespace'', str ''Plan a trip'')]\<rparr>,
         \<lparr>vectors = [(str ''result_2'', 0,
                        [(str ''task'', str ''Define problem''), (str ''result'', str ''done'')])],
          kwargs = [(''nmespace'', str ''Plan a trip'')]\<rparr>]\<rparr>"

text \<open>The state of the scenario run after its first iteration.\<close>

definition world_trip_1 :: "nat world" where
  "world_trip_1 =
     \<lparr>objects =
        [\<lparr>task_name = str ''Define problem'', parent = None, children = [1, 2, 3]\<rparr>,
         \<lparr>task_name = str ''Identify key components'', parent = Some 0, children = []\<rparr>,
         \<lparr>task_name = str ''Determine constraints'', parent = Some 0, children = []\<rparr>,
         \<lparr>task_name = str ''Set goals'', parent = Some 0, children = []\<rparr>],
      thought_tree = \<lparr>root = Some 0\<rparr>,
      tasks_storage =
        \<lparr>tasks = [\<lparr>task_id = PStr (str ''2''), task_name = str ''Identify key components''\<rparr>,
                  \<lparr>task_id = PStr (str ''3''), task_name = str ''Determine constraints''\<rparr>,
                  \<lparr>task_id = PStr (str ''4''), task_name = str ''Set goals''\<rparr>],
         task_id_counter = 5\<rparr>,
      upserts =
        [\<lparr>vectors = [(str ''result_1'', 0,
                        [(str ''task'', str ''Define problem''), (str ''result'', str ''done'')])],
          kwargs = [(''nmespace'', str ''Plan a trip'')]\<rparr>]\<rparr>"

section \<open>The task store is a FIFO queue\<close>

lemma run_calls_queue:
  "run_calls cs s = Inr (outs, s') \<Longrightarrow> outs @ tasks s' = tasks s @ appended cs"
proof (induction cs s arbitrary: outs s' rule: run_calls.induct)
  case (1 s)
  then show ?case by simp
next
  case (2 t cs s)
  then show ?case by (simp add: append_def)
next
  case (3 cs s)
  from "3.prems" obtain t ts where ts: "tasks s = t # ts"
    by (cases "tasks s") (auto simp: popleft_def)
  with "3.prems" obtain outs' where
    r: "run_calls cs (s\<lparr>tasks := ts\<rparr>) = Inr (outs', s')" and o: "outs = t # outs'"
    by (auto simp: popleft_def split: sum.splits)
  have "popleft s = Inr (t, s\<lparr>tasks := ts\<rparr>)"
    using ts by (simp add: popleft_def)
  from "3.IH"[OF this refl r] have "outs' @ tasks s' = ts @ appended cs"
    by simp
  with ts o show ?case by simp
qed

text \<open>
  Claim C9.  For every sequence of \<open>append\<close> and \<open>popleft\<close> calls on a fresh store that
  runs without an exception, the tasks returned by the \<open>popleft\<close> calls are, in call
  order, the first appended tasks in the order of their appending (each \<open>popleft\<close>
  returns the earliest appended task not yet returned), the store holds the remaining
  appended tasks in that order, and so every returned task was appended before.
\<close>

theorem task_store_fifo:
  assumes "run_calls cs storage_init = Inr (outs, s')"
  shows "outs = take (length outs) (appended cs)
       \<and> tasks s' = drop (length outs) (appended cs)
       \<and> set outs \<subseteq> set (appended cs)"
proof -
  from run_calls_queue[OF assms] have eq: "outs @ tasks s' = appended cs"
    by (simp add: storage_init_def)
  have "take (length outs) (outs @ tasks s') = outs"
    and "drop (length outs) (outs @ tasks s') = tasks s'"
    by simp_all
  moreover have "set outs \<subseteq> set (outs @ tasks s')" by simp
  ultimately show ?thesis unfolding eq by simp
qed

theorem task_store_fifo_witness:
  "run_calls [Append \<lparr>task_id = PInt 1, task_name = str ''a''\<rparr>,
              Append \<lparr>task_id = PInt 2, task_name = str ''b''\<rparr>,
              Popleft,
              Append \<lparr>task_id = PInt 3, task_name = str ''c''\<rparr>,
              Popleft] storage_init
     = Inr ([\<lparr>task_id = PInt 1, task_name = str ''a''\<rparr>,
             \<lparr>task_id = PInt 2, task_name = str ''b''\<rparr>],
            \<lparr>tasks = [\<lparr>task_id = PInt 3, task_name = str ''c''\<rparr>], task_id_counter = 0\<rparr>)
   \<and> [\<lparr>task_id = PInt 1, task_name = str ''a''\<rparr>, \<lparr>task_id = PInt 2, task_name = str ''b''\<rparr>]
     = take 2 (appended [Append \<lparr>task_id = PInt 1, task_name = str ''a''\<rparr>,
              Append \<lparr>task_id = PInt 2, task_name = str ''b''\<rparr>,
              Popleft,
              Append \<lparr>task_id = PInt 3, task_name = str ''c''\<rparr>,
              Popleft])"
proof -
  have run: "run_calls [Append \<lparr>task_id = PInt 1, task_name = str ''a''\<rparr>,
              Append \<lparr>task_id = PInt 2, task_name = str ''b''\<rparr>,
              Popleft,
              Append \<lparr>task_id = PInt 3, task_name = str ''c''\<rparr>,
              Popleft] storage_init
     = Inr ([\<lparr>task_id = PInt 1, task_name = str ''a''\<rparr>,
             \<lparr>task_id = PInt 2, task_name = str ''b''\<rparr>],
            \<lparr>tasks = [\<lparr>task_id = PInt 3, task_name = str ''c''\<rparr>], task_id_counter = 0\<rparr>)"
    by (simp add: storage_init_def append_def popleft_def)
  from task_store_fifo[OF run] show ?thesis using run by simp
qed

text \<open>
  Claim C10.  \<open>replace\<close> assigns the deque only: the counter of the store is the same
  before and after, so the next \<open>next_task_id\<close> returns the value it would have returned
  without the \<open>replace\<close>, whatever ids the new tasks carry.
\<close>

theorem replace_keeps_counter:
  "task_id_counter (replace s ts) = task_id_counter s
   \<and> fst (next_task_id (replace s ts)) = fst (next_task_id s)
   \<and> tasks (replace s ts) = ts"
  by (simp add: replace_def next_task_id_def)

section \<open>The parser of the prioritization policy\<close>

lemma split_on_no_sep: "sep \<notin> set s \<Longrightarrow> split_on sep s = [s]"
  by (induction s) auto

lemma strip_leading: "(\<And>c. c \<in> set ws \<Longrightarrow> is_space c) \<Longrightarrow> strip (ws @ x) = strip x"
  by (simp add: strip_def dropWhile_append2)

lemma strip_trailing:
  assumes ws: "\<And>c. c \<in> set ws \<Longrightarrow> is_space c"
  shows "strip (x @ ws) = strip x"
proof (cases "\<forall>c \<in> set x. is_space c")
  case True
  then have "\<forall>c \<in> set (x @ ws). is_space c"
    using ws by auto
  then have "dropWhile is_space (x @ ws) = []"
    by (simp only: dropWhile_eq_Nil_conv)
  moreover have "dropWhile is_space x = []"
    using True by (simp only: dropWhile_eq_Nil_conv)
  ultimately show ?thesis by (simp only: strip_def)
next
  case False
  then obtain c where "c \<in> set x" "\<not> is_space c" by blast
  then have "dropWhile is_space (x @ ws) = dropWhile is_space x @ ws"
    by (rule dropWhile_append1)
  moreover have "dropWhile is_space (rev ws @ y) = dropWhile is_space y" for y
    by (rule dropWhile_append2) (simp add: ws)
  ultimately show ?thesis by (simp add: strip_def)
qed

lemma strip_decompose:
  "\<exists>ws1 ws2. l = ws1 @ strip l @ ws2
      \<and> (\<forall>c \<in> set ws1. is_space c) \<and> (\<forall>c \<in> set ws2. is_space c)"
proof -
  let ?d = "dropWhile is_space l"
  let ?ws2 = "rev (takeWhile is_space (rev ?d))"
  have "rev (strip l @ ?ws2) = rev ?d"
    by (simp add: strip_def)
  then have d: "?d = strip l @ ?ws2"
    by (metis rev_rev_ident)
  have "l = takeWhile is_space l @ ?d" by simp
  with d have "l = takeWhile is_space l @ strip l @ ?ws2"
    by simp
  moreover have "\<forall>c \<in> set (takeWhile is_space l). is_space c"
    by (auto dest: set_takeWhileD)
  moreover have "\<forall>c \<in> set ?ws2. is_space c"
    by (auto dest: set_takeWhileD)
  ultimately show ?thesis by blast
qed

lemma dot_not_space: "\<not> is_space 46"
  by (simp add: is_space_def)

lemma dot_in_strip: "46 \<in> set (strip l) \<longleftrightarrow> 46 \<in> set l"
proof -
  obtain ws1 ws2 where l: "l = ws1 @ strip l @ ws2"
    and w1: "\<And>c. c \<in> set ws1 \<Longrightarrow> is_space c" and w2: "\<And>c. c \<in> set ws2 \<Longrightarrow> is_space c"
    using strip_decompose[of l] by blast
  have "set l = set ws1 \<union> set (strip l) \<union> set ws2"
    by (subst l) auto
  moreover have "46 \<notin> set ws1" "46 \<notin> set ws2"
    using w1 w2 dot_not_space by blast+
  ultimately show ?thesis by simp
qed

lemma strip_before_dot:
  assumes "46 \<in> set l"
  shows "strip (takeWhile (\<lambda>c. c \<noteq> 46) (strip l)) = strip (takeWhile (\<lambda>c. c \<noteq> 46) l)"
proof -
  obtain ws1 ws2 where l: "l = ws1 @ strip l @ ws2"
    and w1: "\<And>c. c \<in> set ws1 \<Longrightarrow> is_space c" and w2: "\<And>c. c \<in> set ws2 \<Longrightarrow> is_space c"
    using strip_decompose[of l] by blast
  let ?core = "strip l"
  have core: "46 \<in> set ?core" using assms by (simp add: dot_in_strip)
  have n1: "\<And>c. c \<in> set ws1 \<Longrightarrow> c \<noteq> 46" using w1 dot_not_space by blast
  have "takeWhile (\<lambda>c. c \<noteq> 46) (ws1 @ ?core @ ws2) = ws1 @ takeWhile (\<lambda>c. c \<noteq> 46) (?core @ ws2)"
    using n1 by (simp add: takeWhile_append2)
  also have "takeWhile (\<lambda>c. c \<noteq> 46) (?core @ ws2) = takeWhile (\<lambda>c. c \<noteq> 46) ?core"
    using core by (simp add: takeWhile_append1)
  finally have "takeWhile (\<lambda>c. c \<noteq> 46) l = ws1 @ takeWhile (\<lambda>c. c \<noteq> 46) ?core"
    using l by simp
  then show ?thesis using w1 by (simp add: strip_leading)
qed

lemma strip_after_dot:
  assumes "46 \<in> set l"
  shows "strip (tl (dropWhile (\<lambda>c. c \<noteq> 46) (strip l))) = strip (tl (dropWhile (\<lambda>c. c \<noteq> 46) l))"
proof -
  obtain ws1 ws2 where l: "l = ws1 @ strip l @ ws2"
    and w1: "\<And>c. c \<in> set ws1 \<Longrightarrow> is_space c" and w2: "\<And>c. c \<in> set ws2 \<Longrightarrow> is_space c"
    using strip_decompose[of l] by blast
  let ?core = "strip l"
  have core: "46 \<in> set ?core" using assms by (simp add: dot_in_strip)
  have n1: "\<And>c. c \<in> set ws1 \<Longrightarrow> c \<noteq> 46" using w1 dot_not_space by blast
  have ne: "dropWhile (\<lambda>c. c \<noteq> 46) ?core \<noteq> []"
    using core by (simp add: dropWhile_eq_Nil_conv)
  have "dropWhile (\<lambda>c. c \<noteq> 46) (ws1 @ ?core @ ws2) = dropWhile (\<lambda>c. c \<noteq> 46) (?core @ ws2)"
    using n1 by (simp add: dropWhile_append2)
  also have "\<dots> = dropWhile (\<lambda>c. c \<noteq> 46) ?core @ ws2"
    using core by (simp add: dropWhile_append1)
  finally have "dropWhile (\<lambda>c. c \<noteq> 46) l = dropWhile (\<lambda>c. c \<noteq> 46) ?core @ ws2"
    using l by simp
  then have "tl (dropWhile (\<lambda>c. c \<noteq> 46) l) = tl (dropWhile (\<lambda>c. c \<noteq> 46) ?core) @ ws2"
    using ne by simp
  then show ?thesis using w2 by (simp add: strip_trailing)
qed

lemma parse_loop_spec:
  "parse_loop ls acc = acc @ map spec_task (filter spec_two_parts ls)"
proof (induction ls arbitrary: acc)
  case Nil
  then show ?case by simp
next
  case (Cons l ls)
  show ?case
  proof (cases "46 \<in> set l")
    case True
    then have "split_first 46 (strip l) =
        [takeWhile (\<lambda>c. c \<noteq> 46) (strip l), tl (dropWhile (\<lambda>c. c \<noteq> 46) (strip l))]"
      by (simp add: split_first_def dot_in_strip)
    with True show ?thesis
      by (simp add: Cons.IH spec_task_def spec_two_parts_def strip_before_dot strip_after_dot)
  next
    case False
    then have "split_first 46 (strip l) = [strip l]"
      by (simp add: split_first_def dot_in_strip)
    with False show ?thesis
      by (simp add: Cons.IH spec_two_parts_def)
  qed
qed

lemma prioritization_agent_spec:
  "prioritization_agent response s =
     \<lparr>tasks = spec_prioritized response, task_id_counter = task_id_counter s + 1\<rparr>"
proof -
  have "(if 10 \<in> set response then split_on 10 response else [response]) = split_on 10 response"
    by (simp add: split_on_no_sep)
  then show ?thesis
    by (simp add: prioritization_agent_def next_task_id_def replace_def parse_loop_spec
        spec_prioritized_def spec_lines_def)
qed


text \<open>
  Claim C2.  For every response text, \<open>prioritization_agent\<close> replaces the contents of
  the store by the tasks parsed from the lines that contain a full stop, in the order of
  the response: the id is the stripped text before the first full stop, the name the
  stripped text after it; every other line is dropped.  On the response of the scenario,
  in a store whose next id is 2, the store then holds exactly three tasks with the ids
  "2", "3", "4".
\<close>

theorem prioritization_agent_parses:
  "prioritization_agent response s =
     \<lparr>tasks = spec_prioritized response, task_id_counter = task_id_counter s + 1\<rparr>
   \<and> fst (next_task_id \<lparr>tasks = ts, task_id_counter = 1\<rparr>) = 2
   \<and> tasks (prioritization_agent
        (str ''2. Pack bags'' @ [10] @ str ''3. Book flight'' @ [10] @ str ''NOISE LINE''
           @ [10] @ str ''4. Confirm hotel'')
        \<lparr>tasks = ts, task_id_counter = 1\<rparr>)
     = [\<lparr>task_id = PStr (str ''2''), task_name = str ''Pack bags''\<rparr>,
        \<lparr>task_id = PStr (str ''3''), task_name = str ''Book flight''\<rparr>,
        \<lparr>task_id = PStr (str ''4''), task_name = str ''Confirm hotel''\<rparr>]"
proof -
  have "tasks (prioritization_agent
        (str ''2. Pack bags'' @ [10] @ str ''3. Book flight'' @ [10] @ str ''NOISE LINE''
           @ [10] @ str ''4. Confirm hotel'')
        \<lparr>tasks = ts, task_id_counter = 1\<rparr>)
     = [\<lparr>task_id = PStr (str ''2''), task_name = str ''Pack bags''\<rparr>,
        \<lparr>task_id = PStr (str ''3''), task_name = str ''Book flight''\<rparr>,
        \<lparr>task_id = PStr (str ''4''), task_name = str ''Confirm hotel''\<rparr>]"
    by (simp add: prioritization_agent_def str_def next_task_id_def replace_def
        split_first_def strip_def is_space_def Let_def)
  moreover have "fst (next_task_id \<lparr>tasks = ts, task_id_counter = 1\<rparr>) = 2"
    by (simp add: next_task_id_def)
  ultimately show ?thesis
    using prioritization_agent_spec[of response s] by simp
qed

section \<open>Task ids\<close>

lemma run_id_calls_ids:
  "run_id_calls cs s = Inr (outs, s') \<Longrightarrow>
     \<exists>new. map task_id (outs @ tasks s') = map task_id (tasks s) @ map PInt new
        \<and> sorted_wrt (<) new
        \<and> (\<forall>k \<in> set new. task_id_counter s < k \<and> k \<le> task_id_counter s')
        \<and> task_id_counter s \<le> task_id_counter s'"
proof (induction cs s arbitrary: outs s' rule: run_id_calls.induct)
  case (1 s)
  then show ?case by simp
next
  case (2 cs s)
  from "2.prems" have "run_id_calls cs (snd (next_task_id s)) = Inr (outs, s')" by simp
  from "2.IH"[OF this] obtain new where
    "map task_id (outs @ tasks s') = map task_id (tasks (snd (next_task_id s))) @ map PInt new"
    "sorted_wrt (<) new"
    "\<forall>k \<in> set new. task_id_counter (snd (next_task_id s)) < k \<and> k \<le> task_id_counter s'"
    "task_id_counter (snd (next_task_id s)) \<le> task_id_counter s'"
    by blast
  then show ?case
    by (intro exI[of _ new]) (auto simp: next_task_id_def)
next
  case (3 name cs s)
  let ?c = "task_id_counter s + 1"
  let ?s1 = "append (snd (next_task_id s)) \<lparr>task_id = PInt ?c, task_name = name\<rparr>"
  from "3.prems" have r: "run_id_calls cs ?s1 = Inr (outs, s')"
    by (simp add: next_task_id_def)
  have "(?c, snd (next_task_id s)) = next_task_id s" by (simp add: next_task_id_def)
  from "3.IH"[OF refl this r] obtain new where n:
    "map task_id (outs @ tasks s') = map task_id (tasks ?s1) @ map PInt new"
    "sorted_wrt (<) new"
    "\<forall>k \<in> set new. task_id_counter ?s1 < k \<and> k \<le> task_id_counter s'"
    "task_id_counter ?s1 \<le> task_id_counter s'"
    by blast
  have c1: "task_id_counter ?s1 = ?c" and t1: "tasks ?s1 = tasks s @ [\<lparr>task_id = PInt ?c, task_name = name\<rparr>]"
    by (simp_all add: append_def next_task_id_def)
  show ?case
    using n unfolding c1 t1
    by (intro exI[of _ "?c # new"]) auto
next
  case (4 cs s)
  from "4.prems" obtain t ts where ts: "tasks s = t # ts"
    by (cases "tasks s") (auto simp: popleft_def)
  with "4.prems" obtain outs' where
    r: "run_id_calls cs (s\<lparr>tasks := ts\<rparr>) = Inr (outs', s')" and o: "outs = t # outs'"
    by (auto simp: popleft_def split: sum.splits)
  have "popleft s = Inr (t, s\<lparr>tasks := ts\<rparr>)"
    using ts by (simp add: popleft_def)
  from "4.IH"[OF this refl r] obtain new where
    "map task_id (outs' @ tasks s') = map task_id ts @ map PInt new"
    "sorted_wrt (<) new"
    "\<forall>k \<in> set new. task_id_counter s < k \<and> k \<le> task_id_counter s'"
    "task_id_counter s \<le> task_id_counter s'"
    by auto
  then show ?case
    using ts o by (intro exI[of _ new]) auto
qed

text \<open>
  Claim C8, as amended.  For every sequence of \<open>next_task_id\<close> calls, appends of a task
  whose id was just drawn from \<open>next_task_id\<close>, and \<open>popleft\<close> calls on a fresh store that
  runs without an exception, the ids of the tasks removed so far followed by the ids of
  the tasks held are strictly increasing integers between 1 and the counter: no two
  tasks held share an id, and no id of a removed task is given to a later one.
\<close>

theorem drawn_ids_never_reused:
  assumes "run_id_calls cs storage_init = Inr (outs, s')"
  shows "distinct (map task_id (outs @ tasks s'))
       \<and> distinct (map task_id (tasks s'))
       \<and> (\<exists>new. map task_id (outs @ tasks s') = map PInt new \<and> sorted_wrt (<) new
             \<and> (\<forall>k \<in> set new. 1 \<le> k \<and> k \<le> task_id_counter s'))"
proof -
  from run_id_calls_ids[OF assms] obtain new where n:
    "map task_id (outs @ tasks s') = map PInt new" "sorted_wrt (<) new"
    "\<forall>k \<in> set new. 0 < k \<and> k \<le> task_id_counter s'"
    by (auto simp: storage_init_def)
  from n(2) have "distinct new" by (simp add: strict_sorted_iff)
  then have d: "distinct (map task_id (outs @ tasks s'))"
    unfolding n(1) by (simp add: distinct_map inj_on_def)
  then have "distinct (map task_id (tasks s'))" by simp
  moreover have "\<forall>k \<in> set new. 1 \<le> k \<and> k \<le> task_id_counter s'"
    using n(3) by auto
  ultimately show ?thesis using d n(1,2) by blast
qed

theorem drawn_ids_never_reused_witness:
  "run_id_calls [AddNew (str ''a''), AddNew (str ''b''), Remove, Draw, AddNew (str ''c'')] storage_init
     = Inr ([\<lparr>task_id = PInt 1, task_name = str ''a''\<rparr>],
            \<lparr>tasks = [\<lparr>task_id = PInt 2, task_name = str ''b''\<rparr>,
                      \<lparr>task_id = PInt 4, task_name = str ''c''\<rparr>], task_id_counter = 4\<rparr>)
   \<and> distinct (map task_id ([\<lparr>task_id = PInt 1, task_name = str ''a''\<rparr>] @
        [\<lparr>task_id = PInt 2, task_name = str ''b''\<rparr>, \<lparr>task_id = PInt 4, task_name = str ''c''\<rparr>]))"
proof -
  have run: "run_id_calls [AddNew (str ''a''), AddNew (str ''b''), Remove, Draw, AddNew (str ''c'')] storage_init
     = Inr ([\<lparr>task_id = PInt 1, task_name = str ''a''\<rparr>],
            \<lparr>tasks = [\<lparr>task_id = PInt 2, task_name = str ''b''\<rparr>,
                      \<lparr>task_id = PInt 4, task_name = str ''c''\<rparr>], task_id_counter = 4\<rparr>)"
    by (simp add: storage_init_def append_def popleft_def next_task_id_def)
  from drawn_ids_never_reused[OF run] show ?thesis using run by simp
qed

text \<open>
  The store itself checks no id: \<open>append\<close> and \<open>replace\<close> take the tasks as given, and
  \<open>prioritization_agent\<close> takes the ids from the text of the response.  A response with
  the lines "1. a" and "1. b" leaves two tasks with the id "1" in the store.
\<close>

theorem store_ids_not_unique_counterexample:
  "\<not> distinct (map task_id (tasks (prioritization_agent (str ''1. a'' @ [10] @ str ''1. b'') storage_init)))"
  by (simp add: prioritization_agent_def str_def next_task_id_def replace_def
        split_first_def strip_def is_space_def Let_def storage_init_def)

section \<open>Heaps and the stack traversal\<close>

lemma heap_ok_iff:
  "heap_ok h \<longleftrightarrow> (\<forall>a < length h. \<forall>c \<in> set (children (h ! a)). a < c \<and> c < length h)"
  unfolding heap_ok_def list_all_iff set_upt Ball_def atLeastLessThan_iff by blast

lemma heap_ok_Nil: "heap_ok []"
  by (simp add: heap_ok_iff)

lemma get_next_thought_loop_top:
  "a < length h \<Longrightarrow>
   get_next_thought_loop h (st @ [Some a]) =
     (if children (h ! a) = [] then Some (Inr (Some a))
      else get_next_thought_loop h (st @ map Some (children (h ! a))))"
  by (subst get_next_thought_loop.simps) simp

lemma get_next_thought_loop_descends:
  assumes ok: "heap_ok h"
  shows "a < length h \<Longrightarrow>
    \<exists>b. get_next_thought_loop h (st @ [Some a]) = Some (Inr (Some b))
       \<and> last_child_leaf h a b \<and> b < length h \<and> children (h ! b) = []"
proof (induction "length h - a" arbitrary: a st rule: less_induct)
  case less
  show ?case
  proof (cases "children (h ! a) = []")
    case True
    with less.prems show ?thesis
      by (auto simp: get_next_thought_loop_top intro: last_child_leaf.leaf)
  next
    case False
    let ?cs = "children (h ! a)"
    let ?c = "last ?cs"
    have "?c \<in> set ?cs" using False by simp
    with ok less.prems have c: "a < ?c" "?c < length h"
      unfolding heap_ok_iff by blast+
    have split: "st @ map Some ?cs = (st @ map Some (butlast ?cs)) @ [Some ?c]"
      using False by (metis append_assoc append_butlast_last_id list.simps(8,9) map_append)
    from c have "length h - ?c < length h - a" by arith
    from less.hyps[OF this c(2), of "st @ map Some (butlast ?cs)"] obtain b where
      b: "get_next_thought_loop h ((st @ map Some (butlast ?cs)) @ [Some ?c]) = Some (Inr (Some b))"
         "last_child_leaf h ?c b" "b < length h" "children (h ! b) = []"
      by blast
    have "get_next_thought_loop h (st @ [Some a]) = Some (Inr (Some b))"
      using less.prems False b(1) split by (simp add: get_next_thought_loop_top)
    moreover have "last_child_leaf h a b"
      using less.prems False b(2) by (rule last_child_leaf.step)
    ultimately show ?thesis using b(3,4) by blast
  qed
qed

lemma last_child_leaf_unique:
  "last_child_leaf h a b \<Longrightarrow> last_child_leaf h a b' \<Longrightarrow> b = b'"
proof (induction arbitrary: b' rule: last_child_leaf.induct)
  case (leaf a)
  from leaf.prems leaf.hyps show ?case
    by (cases rule: last_child_leaf.cases) auto
next
  case (step a b)
  from step.prems step.hyps(1,2) have "last_child_leaf h (last (children (h ! a))) b'"
    by (cases rule: last_child_leaf.cases) auto
  then show ?case by (rule step.IH)
qed

lemma get_next_thought_root:
  assumes "heap_ok h" "root tree = Some r" "r < length h"
  shows "\<exists>b. get_next_thought h tree = Some (Inr (Some b))
       \<and> last_child_leaf h r b \<and> b < length h \<and> children (h ! b) = []"
  using get_next_thought_loop_descends[OF assms(1,3), of "[]"] assms(2)
  by (simp add: get_next_thought_def)

lemma get_next_thought_no_root:
  "root tree = None \<Longrightarrow> get_next_thought h tree = Some (Inl AttributeError)"
  unfolding get_next_thought_def by (subst get_next_thought_loop.simps) simp

lemma length_add_child: "length (add_child p c h) = length h"
  by (simp add: add_child_def)

lemma children_add_child:
  "a < length h \<Longrightarrow>
   children (add_child p c h ! a) = (if a = p then children (h ! a) @ [c] else children (h ! a))"
  by (simp add: add_child_def nth_list_update)

lemma add_thought_None:
  "add_thought tree name None h =
     (length h, h @ [\<lparr>task_name = name, parent = None, children = []\<rparr>],
      tree\<lparr>root := Some (length h)\<rparr>)"
  by (simp add: add_thought_def Thought_init_def)

lemma add_thought_Some:
  "add_thought tree name (Some p) h =
     (length h,
      add_child p (length h) (h @ [\<lparr>task_name = name, parent = Some p, children = []\<rparr>]),
      tree)"
  by (simp add: add_thought_def Thought_init_def)

lemma heap_ok_new_leaf:
  assumes ok: "heap_ok h" and leaf: "children t = []"
  shows "heap_ok (h @ [t])"
proof -
  have "a < c \<and> c < length (h @ [t])"
    if a: "a < length (h @ [t])" and c: "c \<in> set (children ((h @ [t]) ! a))" for a c
  proof (cases "a < length h")
    case True
    then have "(h @ [t]) ! a = h ! a" by (simp add: nth_append)
    with c have "c \<in> set (children (h ! a))" by simp
    with ok True have "a < c \<and> c < length h" unfolding heap_ok_iff by blast
    then show ?thesis by simp
  next
    case False
    with a have "a = length h" by simp
    then have "(h @ [t]) ! a = t" by simp
    with c leaf show ?thesis by simp
  qed
  then show ?thesis unfolding heap_ok_iff by blast
qed

lemma heap_ok_add_child:
  assumes ok: "heap_ok h" and p: "p < c" and c: "c < length h"
  shows "heap_ok (add_child p c h)"
proof -
  have "a < d \<and> d < length (add_child p c h)"
    if a: "a < length (add_child p c h)" and d: "d \<in> set (children (add_child p c h ! a))"
    for a d
  proof -
    from a have a1: "a < length h" by (simp add: length_add_child)
    from d have "d \<in> set (if a = p then children (h ! a) @ [c] else children (h ! a))"
      by (simp only: children_add_child[OF a1])
    then have "d \<in> set (children (h ! a)) \<or> (a = p \<and> d = c)"
      by (cases "a = p") auto
    then show ?thesis
    proof
      assume "d \<in> set (children (h ! a))"
      with ok a1 have "a < d \<and> d < length h" unfolding heap_ok_iff by blast
      then show ?thesis by (simp add: length_add_child)
    next
      assume "a = p \<and> d = c"
      with p c show ?thesis by (simp add: length_add_child)
    qed
  qed
  then show ?thesis unfolding heap_ok_iff by blast
qed

lemma add_thought_heap_ok:
  assumes ok: "heap_ok h" and par: "case par of None \<Rightarrow> True | Some p \<Rightarrow> p < length h"
  shows "heap_ok (fst (snd (add_thought tree name par h)))
       \<and> fst (add_thought tree name par h) = length h
       \<and> length (fst (snd (add_thought tree name par h))) = Suc (length h)"
proof (cases par)
  case None
  have "heap_ok (h @ [\<lparr>task_name = name, parent = None, children = []\<rparr>])"
    using ok by (rule heap_ok_new_leaf) simp
  then show ?thesis by (simp add: None add_thought_None)
next
  case (Some p)
  let ?h1 = "h @ [\<lparr>task_name = name, parent = Some p, children = []\<rparr>]"
  from Some par have p: "p < length h" by simp
  have "heap_ok ?h1" using ok by (rule heap_ok_new_leaf) simp
  then have "heap_ok (add_child p (length h) ?h1)"
    using p by (rule heap_ok_add_child) simp
  then show ?thesis by (simp add: Some add_thought_Some length_add_child)
qed

section \<open>Evaluated runs\<close>

lemmas eval_defs = main_def startup_def loop_body_def create_tasks_def task_creation_agent_def
  generate_tasks_based_on_thought_def task_map_def add_thought_def Thought_init_def add_child_def
  ThoughtTree_init_def get_next_thought_def get_next_thought_loop.simps is_thought_tree_empty_def
  upsert_result_def OBJECTIVE_PINECONE_COMPAT_def str_int_def digits.simps
  prioritization_agent_def next_task_id_def replace_def append_def popleft_def storage_init_def
  split_first_def strip_def is_space_def str_def Let_def

lemma tree_ABC_eq:
  "tree_ABC =
     ([\<lparr>task_name = str ''A'', parent = None, children = [1, 2]\<rparr>,
       \<lparr>task_name = str ''B'', parent = Some 0, children = []\<rparr>,
       \<lparr>task_name = str ''C'', parent = Some 0, children = []\<rparr>],
      \<lparr>root = Some 0\<rparr>)"
  by (simp add: tree_ABC_def add_thought_def Thought_init_def add_child_def ThoughtTree_init_def)

lemma heap_ok_tree_ABC: "heap_ok (fst tree_ABC)"
  by (simp add: tree_ABC_eq heap_ok_def upt_conv_Cons)

lemma get_next_thought_tree_ABC:
  "get_next_thought (fst tree_ABC) (snd tree_ABC) = Some (Inr (Some 2))"
  by (simp add: tree_ABC_eq get_next_thought_def get_next_thought_loop.simps)

lemma loop_body_world_ABC:
  "loop_body config_ABC answers_ABC world_ABC =
     Some (Inr (world_ABC\<lparr>
       tasks_storage := \<lparr>tasks = [\<lparr>task_id = PStr (str ''3''), task_name = str ''C''\<rparr>],
                          task_id_counter = 3\<rparr>,
       upserts := [\<lparr>vectors = [(str ''result_1'', 0,
                                 [(str ''task'', str ''B''), (str ''result'', str ''done'')])],
                    kwargs = [(''nmespace'', str ''Plan a trip'')]\<rparr>]\<rparr>))"
  by (simp add: world_ABC_def config_ABC_def answers_ABC_def tree_ABC_eq eval_defs)

lemma main_initial_1: "main config_initial [answers_initial] = Some (Inr world_initial_1)"
  by (simp add: config_initial_def answers_initial_def world_initial_1_def eval_defs)

lemma loop_body_initial_2:
  "loop_body config_initial answers_initial world_initial_1 = Some (Inr world_initial_2)"
  by (simp add: config_initial_def answers_initial_def world_initial_1_def world_initial_2_def
      eval_defs)

lemma main_loop_snoc_step:
  "main_loop cfg [a] w = Some (Inr w1) \<Longrightarrow> \<not> is_thought_tree_empty (thought_tree w1) \<Longrightarrow>
   main_loop cfg [a, b] w = loop_body cfg b w1"
  by (auto split: option.splits sum.splits if_splits)

lemma main_initial_2:
  "main config_initial [answers_initial, answers_initial] = Some (Inr world_initial_2)"
proof -
  have "main_loop config_initial [answers_initial] (startup config_initial) = Some (Inr world_initial_1)"
    using main_initial_1 by (simp add: main_def)
  moreover have "\<not> is_thought_tree_empty (thought_tree world_initial_1)"
    by (simp add: is_thought_tree_empty_def world_initial_1_def)
  ultimately have "main_loop config_initial [answers_initial, answers_initial] (startup config_initial)
      = loop_body config_initial answers_initial world_initial_1"
    by (rule main_loop_snoc_step)
  then show ?thesis by (simp add: main_def loop_body_initial_2)
qed

section \<open>The thought tree and its root\<close>

lemma add_thought_Some_heap:
  assumes p: "p < length h"
  shows "length (fst (snd (add_thought tree name (Some p) h))) = Suc (length h)"
    and "fst (snd (add_thought tree name (Some p) h)) ! length h =
           \<lparr>task_name = name, parent = Some p, children = []\<rparr>"
    and "fst (snd (add_thought tree name (Some p) h)) ! p =
           (h ! p)\<lparr>children := children (h ! p) @ [length h]\<rparr>"
    and "\<forall>a. a < length h \<and> a \<noteq> p \<longrightarrow>
           fst (snd (add_thought tree name (Some p) h)) ! a = h ! a"
proof -
  let ?n = "\<lparr>task_name = name, parent = Some p, children = []\<rparr>"
  let ?h' = "fst (snd (add_thought tree name (Some p) h))"
  have hp: "(h @ [?n]) ! p = h ! p" using p by (simp add: nth_append)
  have h': "?h' = (h @ [?n])[p := (h ! p)\<lparr>children := children (h ! p) @ [length h]\<rparr>]"
    by (simp add: add_thought_Some add_child_def hp)
  show "length ?h' = Suc (length h)" by (simp add: h')
  show "?h' ! length h = ?n" using p by (simp add: h')
  show "?h' ! p = (h ! p)\<lparr>children := children (h ! p) @ [length h]\<rparr>"
    using p by (simp add: h')
  show "\<forall>a. a < length h \<and> a \<noteq> p \<longrightarrow> ?h' ! a = h ! a"
    by (simp add: h' nth_append)
qed

text \<open>
  Claim C4, as amended.  \<open>add_thought\<close> always returns the new thought, whose address is
  the next free one.  With no parent it appends the new thought to the heap and makes it
  the root of the tree, whatever the root was before.  With a parent it leaves the root
  as it is, and when the parent is a thought of the heap, the new thought is in the
  heap with the given name, that parent and no children, it is the last of the parent's
  children, and every other thought is as before.
\<close>

theorem add_thought_sets_root:
  "add_thought tree name None h =
     (length h, h @ [\<lparr>task_name = name, parent = None, children = []\<rparr>],
      tree\<lparr>root := Some (length h)\<rparr>)
   \<and> root (snd (snd (add_thought tree name None h))) = Some (length h)
   \<and> fst (add_thought tree name (Some p) h) = length h
   \<and> snd (snd (add_thought tree name (Some p) h)) = tree
   \<and> (p < length h \<longrightarrow>
        length (fst (snd (add_thought tree name (Some p) h))) = Suc (length h)
        \<and> fst (snd (add_thought tree name (Some p) h)) ! length h =
            \<lparr>task_name = name, parent = Some p, children = []\<rparr>
        \<and> fst (snd (add_thought tree name (Some p) h)) ! p =
            (h ! p)\<lparr>children := children (h ! p) @ [length h]\<rparr>
        \<and> (\<forall>a. a < length h \<and> a \<noteq> p \<longrightarrow>
              fst (snd (add_thought tree name (Some p) h)) ! a = h ! a))"
proof -
  have "add_thought tree name None h =
     (length h, h @ [\<lparr>task_name = name, parent = None, children = []\<rparr>],
      tree\<lparr>root := Some (length h)\<rparr>)"
    by (rule add_thought_None)
  moreover from this have "root (snd (snd (add_thought tree name None h))) = Some (length h)"
    by simp
  moreover have "fst (add_thought tree name (Some p) h) = length h"
    "snd (snd (add_thought tree name (Some p) h)) = tree"
    by (simp_all add: add_thought_Some)
  ultimately show ?thesis
    using add_thought_Some_heap[of p h tree name] by (intro conjI impI) assumption+
qed

theorem add_thought_sets_root_witness:
  "(0::nat) < length [\<lparr>task_name = str ''A'', parent = None, children = []\<rparr>]
   \<and> add_thought \<lparr>root = Some 0\<rparr> (str ''B'') (Some 0)
         [\<lparr>task_name = str ''A'', parent = None, children = []\<rparr>]
       = (1, [\<lparr>task_name = str ''A'', parent = None, children = [1]\<rparr>,
              \<lparr>task_name = str ''B'', parent = Some 0, children = []\<rparr>],
          \<lparr>root = Some 0\<rparr>)
   \<and> fst (snd (add_thought \<lparr>root = Some 0\<rparr> (str ''B'') (Some 0)
         [\<lparr>task_name = str ''A'', parent = None, children = []\<rparr>])) ! 0
       = \<lparr>task_name = str ''A'', parent = None, children = [1]\<rparr>"
proof -
  have l: "(0::nat) < length [\<lparr>task_name = str ''A'', parent = None, children = []\<rparr>]"
    by simp
  have e: "add_thought \<lparr>root = Some 0\<rparr> (str ''B'') (Some 0)
         [\<lparr>task_name = str ''A'', parent = None, children = []\<rparr>]
       = (1, [\<lparr>task_name = str ''A'', parent = None, children = [1]\<rparr>,
              \<lparr>task_name = str ''B'', parent = Some 0, children = []\<rparr>],
          \<lparr>root = Some 0\<rparr>)"
    by (simp add: add_thought_def Thought_init_def add_child_def)
  from add_thought_sets_root[of "\<lparr>root = Some 0\<rparr>" "str ''B''"
      "[\<lparr>task_name = str ''A'', parent = None, children = []\<rparr>]" 0] l
  have "fst (snd (add_thought \<lparr>root = Some 0\<rparr> (str ''B'') (Some 0)
         [\<lparr>task_name = str ''A'', parent = None, children = []\<rparr>])) ! 0
       = ([\<lparr>task_name = str ''A'', parent = None, children = []\<rparr>] ! 0)
           \<lparr>children := children
              ([\<lparr>task_name = str ''A'', parent = None, children = []\<rparr>] ! 0) @ [1]\<rparr>"
    by simp
  then show ?thesis using l e by simp
qed

text \<open>
  On the tree whose root is the thought A, \<open>add_thought\<close> with no parent returns the new
  thought B and the root of the tree is now B: the root A has been replaced.
\<close>

theorem add_thought_replaces_root_counterexample:
  "root (snd (snd (add_thought ThoughtTree_init (str ''A'') None []))) = Some 0
   \<and> add_thought \<lparr>root = Some 0\<rparr> (str ''B'') None
         [\<lparr>task_name = str ''A'', parent = None, children = []\<rparr>]
       = (1, [\<lparr>task_name = str ''A'', parent = None, children = []\<rparr>,
              \<lparr>task_name = str ''B'', parent = None, children = []\<rparr>],
          \<lparr>root = Some 1\<rparr>)"
  by (simp add: add_thought_def Thought_init_def ThoughtTree_init_def)

section \<open>The traversal\<close>

text \<open>
  Claim C5.  On every heap built by \<open>add_thought\<close> and every tree with a root,
  \<open>get_next_thought\<close> returns, and what it returns is a thought without children: the
  one the stack traversal reaches, which is the leaf found from the root by going to
  the most recently added child at every thought.
\<close>

theorem get_next_thought_returns_leaf:
  assumes "heap_ok h" and "root tree = Some r" and "r < length h"
  shows "\<exists>b. get_next_thought h tree = Some (Inr (Some b))
           \<and> b < length h \<and> children (h ! b) = [] \<and> last_child_leaf h r b"
  using get_next_thought_root[OF assms] by blast

theorem get_next_thought_returns_leaf_witness:
  "heap_ok (fst tree_ABC) \<and> root (snd tree_ABC) = Some 0
   \<and> get_next_thought (fst tree_ABC) (snd tree_ABC) = Some (Inr (Some 2))
   \<and> children (fst tree_ABC ! 2) = [] \<and> last_child_leaf (fst tree_ABC) 0 2"
proof -
  have r: "root (snd tree_ABC) = Some 0" and l: "0 < length (fst tree_ABC)"
    by (simp_all add: tree_ABC_eq)
  from get_next_thought_returns_leaf[OF heap_ok_tree_ABC r l] obtain b where
    b: "get_next_thought (fst tree_ABC) (snd tree_ABC) = Some (Inr (Some b))"
       "children (fst tree_ABC ! b) = []" "last_child_leaf (fst tree_ABC) 0 b"
    by blast
  from b(1) have "b = 2" by (simp add: get_next_thought_tree_ABC)
  with b heap_ok_tree_ABC r show ?thesis by simp
qed

text \<open>
  Claim C3, as amended.  A thought is its \<open>task_name\<close>, \<open>parent\<close> and \<open>children\<close> and
  nothing else: it carries no mark of having been executed.  On every heap built by
  \<open>add_thought\<close> and every tree with a root, \<open>get_next_thought\<close> returns a thought, never
  none; on the tree root(A \<rightarrow> [B, C]) it returns C, and after the iteration of the driver
  that executes C there, which leaves the thoughts and the tree as they were, it returns
  C again: the executed leaf is not skipped.
\<close>

theorem get_next_thought_never_none:
  "(heap_ok h \<and> root tree = Some r \<and> r < length h \<longrightarrow>
      get_next_thought h tree \<noteq> Some (Inr None)
      \<and> (\<exists>b. get_next_thought h tree = Some (Inr (Some b))))
   \<and> t = \<lparr>task_name = Thought.task_name t, parent = parent t, children = children t\<rparr>
   \<and> get_next_thought (fst tree_ABC) (snd tree_ABC) = Some (Inr (Some 2))
   \<and> Thought.task_name (fst tree_ABC ! 2) = str ''C''
   \<and> (\<exists>w1. loop_body config_ABC answers_ABC world_ABC = Some (Inr w1)
          \<and> objects w1 = objects world_ABC
          \<and> thought_tree w1 = thought_tree world_ABC
          \<and> get_next_thought (objects w1) (thought_tree w1) = Some (Inr (Some 2)))"
proof -
  have a: "get_next_thought h tree \<noteq> Some (Inr None)
      \<and> (\<exists>b. get_next_thought h tree = Some (Inr (Some b)))"
    if "heap_ok h" "root tree = Some r" "r < length h"
    using get_next_thought_root[OF that] by auto
  have b: "t = \<lparr>task_name = Thought.task_name t, parent = parent t, children = children t\<rparr>"
    by simp
  have c: "Thought.task_name (fst tree_ABC ! 2) = str ''C''"
    by (simp add: tree_ABC_eq)
  have g: "get_next_thought (objects world_ABC) (thought_tree world_ABC) = Some (Inr (Some 2))"
    using get_next_thought_tree_ABC by (simp add: world_ABC_def)
  have d: "\<exists>w1. loop_body config_ABC answers_ABC world_ABC = Some (Inr w1)
          \<and> objects w1 = objects world_ABC
          \<and> thought_tree w1 = thought_tree world_ABC
          \<and> get_next_thought (objects w1) (thought_tree w1) = Some (Inr (Some 2))"
    using g by (simp add: loop_body_world_ABC)
  from a b c d get_next_thought_tree_ABC show ?thesis by blast
qed

theorem get_next_thought_never_none_witness:
  "heap_ok (fst tree_ABC) \<and> root (snd tree_ABC) = Some 0 \<and> 0 < length (fst tree_ABC)
   \<and> get_next_thought (fst tree_ABC) (snd tree_ABC) \<noteq> Some (Inr None)
   \<and> (\<exists>b. get_next_thought (fst tree_ABC) (snd tree_ABC) = Some (Inr (Some b)))"
proof -
  have r: "root (snd tree_ABC) = Some 0" and l: "0 < length (fst tree_ABC)"
    by (simp_all add: tree_ABC_eq)
  with heap_ok_tree_ABC
    get_next_thought_never_none[of "fst tree_ABC" "snd tree_ABC" 0 "fst tree_ABC ! 2"]
  show ?thesis by blast
qed

text \<open>
  On the tree root(A \<rightarrow> [B, C]) the driver selects C and executes it; the heap and the
  tree are the same afterwards, and \<open>get_next_thought\<close> returns the executed leaf C
  again, not B and not none.
\<close>

theorem get_next_thought_repeats_leaf_counterexample:
  "get_next_thought (objects world_ABC) (thought_tree world_ABC) = Some (Inr (Some 2))
   \<and> (\<exists>w1. loop_body config_ABC answers_ABC world_ABC = Some (Inr w1)
          \<and> objects w1 = objects world_ABC
          \<and> get_next_thought (objects w1) (thought_tree w1) = Some (Inr (Some 2)))"
proof -
  have g: "get_next_thought (objects world_ABC) (thought_tree world_ABC) = Some (Inr (Some 2))"
    using get_next_thought_tree_ABC by (simp add: world_ABC_def)
  then show ?thesis by (simp add: loop_body_world_ABC)
qed

text \<open>
  Claim C6, as amended.  On a tree without root \<open>get_next_thought\<close> raises
  \<open>AttributeError\<close>, it does not return none; \<open>is_thought_tree_empty\<close> holds exactly for
  such a tree, and the loop of the driver tests it before every call of
  \<open>get_next_thought\<close>, so that on an empty tree the loop ends without that call.
\<close>

theorem get_next_thought_empty_tree:
  assumes "is_thought_tree_empty (thought_tree w)"
  shows "root (thought_tree w) = None
       \<and> get_next_thought (objects w) (thought_tree w) = Some (Inl AttributeError)
       \<and> main_loop cfg answers w = Some (Inr w)"
proof -
  from assms have r: "root (thought_tree w) = None"
    by (simp add: is_thought_tree_empty_def)
  have "main_loop cfg answers w = Some (Inr w)"
    using assms by (cases answers) simp_all
  with r show ?thesis by (simp add: get_next_thought_no_root)
qed

theorem get_next_thought_empty_tree_witness:
  "is_thought_tree_empty ThoughtTree_init
   \<and> get_next_thought [] ThoughtTree_init = Some (Inl AttributeError)
   \<and> main_loop config_trip [answers_trip]
        \<lparr>objects = [], thought_tree = ThoughtTree_init, tasks_storage = storage_init,
          upserts = []\<rparr>
      = Some (Inr \<lparr>objects = [], thought_tree = ThoughtTree_init,
                   tasks_storage = storage_init, upserts = []\<rparr>)"
proof -
  have e: "is_thought_tree_empty (thought_tree
      \<lparr>objects = [], thought_tree = ThoughtTree_init, tasks_storage = storage_init,
        upserts = ([] :: nat upsert_call list)\<rparr>)"
    by (simp add: is_thought_tree_empty_def ThoughtTree_init_def)
  from get_next_thought_empty_tree[OF e, of config_trip "[answers_trip]"] e
  show ?thesis by simp
qed

theorem get_next_thought_empty_tree_counterexample:
  "is_thought_tree_empty ThoughtTree_init
   \<and> get_next_thought [] ThoughtTree_init \<noteq> Some (Inr None)
   \<and> get_next_thought [] ThoughtTree_init = Some (Inl AttributeError)"
  by (simp add: is_thought_tree_empty_def ThoughtTree_init_def get_next_thought_no_root)

section \<open>One iteration of the driver\<close>

lemma main_trip_1: "main config_trip [answers_trip] = Some (Inr world_trip_1)"
  by (simp add: config_trip_def answers_trip_def world_trip_1_def eval_defs)

text \<open>
  The scenario of the specification, up to line 416 of the first iteration: the task
  taken from the store has the id 1, the new tasks have the ids 2, 3 and 4, and the root
  "Define problem" has exactly the three new thoughts as children.
\<close>

lemma scenario_first_iteration:
  "get_next_thought (objects (startup config_trip :: nat world))
       (thought_tree (startup config_trip :: nat world)) = Some (Inr (Some 0))
   \<and> popleft (tasks_storage (startup config_trip :: nat world)) =
       Inr (\<lparr>task_id = PInt 1, task_name = str ''Define problem''\<rparr>,
            \<lparr>tasks = [], task_id_counter = 1\<rparr>)
   \<and> create_tasks config_trip (str ''done'') 0
         ((startup config_trip :: nat world)
            \<lparr>tasks_storage := \<lparr>tasks = [], task_id_counter = 1\<rparr>\<rparr>)
       = Inr \<lparr>objects = objects world_trip_1, thought_tree = \<lparr>root = Some 0\<rparr>,
              tasks_storage =
                \<lparr>tasks =
                   [\<lparr>task_id = PInt 2, task_name = str ''Identify key components''\<rparr>,
                    \<lparr>task_id = PInt 3, task_name = str ''Determine constraints''\<rparr>,
                    \<lparr>task_id = PInt 4, task_name = str ''Set goals''\<rparr>],
                 task_id_counter = 4\<rparr>,
              upserts = []\<rparr>"
  by (simp add: config_trip_def world_trip_1_def eval_defs)

text \<open>
  Claim C1, evaluated.  In the run with the initial task "INITIAL_TASK" the second
  iteration selects the thought "Develop plan" (address 3), for which the task map
  gives "Outline steps", "Assign responsibilities" and "Set timeline".  After that
  iteration the selected thought still has no child: the three thoughts added are the
  names mapped to the name of the root, and they are children of the root.
\<close>

theorem task_creation_agent_adds_under_root:
  "\<exists>w1 w2.
     main config_initial [answers_initial] = Some (Inr w1)
     \<and> get_next_thought (objects w1) (thought_tree w1) = Some (Inr (Some 3))
     \<and> Thought.task_name (objects w1 ! 3) = str ''Develop plan''
     \<and> generate_tasks_based_on_thought (objects w1 ! 3) =
           [str ''Outline steps'', str ''Assign responsibilities'', str ''Set timeline'']
     \<and> main config_initial [answers_initial, answers_initial] = Some (Inr w2)
     \<and> children (objects w2 ! 3) = []
     \<and> root (thought_tree w2) = Some 0
     \<and> children (objects w2 ! 0) = [1, 2, 3, 4, 5, 6]
     \<and> map (\<lambda>a. Thought.task_name (objects w2 ! a)) [4, 5, 6] =
           [str ''Define problem'', str ''Gather resources'', str ''Develop plan'']"
proof -
  have "get_next_thought (objects world_initial_1) (thought_tree world_initial_1)
      = Some (Inr (Some 3))"
    by (simp add: world_initial_1_def get_next_thought_def get_next_thought_loop.simps)
  moreover have "Thought.task_name (objects world_initial_1 ! 3) = str ''Develop plan''"
    by (simp add: world_initial_1_def)
  moreover have "generate_tasks_based_on_thought (objects world_initial_1 ! 3) =
      [str ''Outline steps'', str ''Assign responsibilities'', str ''Set timeline'']"
    by (simp add: world_initial_1_def generate_tasks_based_on_thought_def task_map_def str_def)
  moreover have "children (objects world_initial_2 ! 3) = []"
    "root (thought_tree world_initial_2) = Some 0"
    "children (objects world_initial_2 ! 0) = [1, 2, 3, 4, 5, 6]"
    "map (\<lambda>a. Thought.task_name (objects world_initial_2 ! a)) [4, 5, 6] =
       [str ''Define problem'', str ''Gather resources'', str ''Develop plan'']"
    by (simp_all add: world_initial_2_def)
  ultimately show ?thesis
    using main_initial_1 main_initial_2
    by (intro exI[of _ world_initial_1] exI[of _ world_initial_2] conjI)
qed

text \<open>
  Claim C7, evaluated.  The record of an executed task has the id "result_" followed
  by the task's id and the metadata of the task's name and the result.  The objective
  without its non-ASCII characters is passed to \<open>upsert\<close> under the keyword \<open>nmespace\<close>;
  the call has no argument \<open>namespace\<close>.  So it is in the first iteration of the scenario
  run.
\<close>

theorem upsert_result_has_no_namespace:
  "vectors (upsert_result cfg task result v) =
     [(str ''result_'' @ format_value (task_id task), v,
       [(str ''task'', Task.task_name task), (str ''result'', result)])]
   \<and> kwargs (upsert_result cfg task result v) =
       [(''nmespace'', filter (\<lambda>c. c \<le> 127) (OBJECTIVE cfg))]
   \<and> namespace_of (upsert_result cfg task result v) = None
   \<and> (\<exists>w. main config_trip [answers_trip] = Some (Inr w)
          \<and> map namespace_of (upserts w) = [None]
          \<and> map vectors (upserts w) =
               [[(str ''result_1'', 0,
                  [(str ''task'', str ''Define problem''), (str ''result'', str ''done'')])]]
          \<and> map kwargs (upserts w) = [[(''nmespace'', str ''Plan a trip'')]])"
proof -
  have g1: "vectors (upsert_result cfg task result v) =
     [(str ''result_'' @ format_value (task_id task), v,
       [(str ''task'', Task.task_name task), (str ''result'', result)])]"
    by (simp add: upsert_result_def)
  have g2: "kwargs (upsert_result cfg task result v) =
       [(''nmespace'', filter (\<lambda>c. c \<le> 127) (OBJECTIVE cfg))]"
    by (simp add: upsert_result_def OBJECTIVE_PINECONE_COMPAT_def)
  have g3: "namespace_of (upsert_result cfg task result v) = None"
    by (simp add: upsert_result_def namespace_of_def)
  have u: "map namespace_of (upserts world_trip_1) = [None]"
    "map vectors (upserts world_trip_1) =
       [[(str ''result_1'', 0,
          [(str ''task'', str ''Define problem''), (str ''result'', str ''done'')])]]"
    "map kwargs (upserts world_trip_1) = [[(''nmespace'', str ''Plan a trip'')]]"
    by (simp_all add: world_trip_1_def namespace_of_def)
  show ?thesis
    by (intro conjI exI[of _ world_trip_1] g1 g2 g3 u main_trip_1)
qed

end
